theory Spec2Isabelle
  imports Main "HOL-Library.Sublist"
begin

section \<open>Python strings\<close>

text \<open>
  A Python \<open>str\<close> is a sequence of Unicode code points; \<open>len\<close> counts code points.
  A character is its code point, a string a list of them. \<open>ustr\<close> turns an ASCII
  literal into such a string.
\<close>

type_synonym uchar = nat
type_synonym ustring = "uchar list"

definition ustr :: "string \<Rightarrow> ustring" where
  "ustr s = map of_char s"

definition newline :: uchar where "newline = 10"
definition space :: uchar where "space = 32"
definition ellipsis :: uchar where "ellipsis = 8230"

datatype py_error = IndexError

text \<open>\<open>xs[i]\<close>: an index from \<open>-len(xs)\<close> up to \<open>-1\<close> reads from the end, one outside \<open>[-len(xs), len(xs))\<close> raises.\<close>

definition py_index :: "'a list \<Rightarrow> int \<Rightarrow> py_error + 'a" where
  "py_index xs i =
     (if 0 \<le> i \<and> i < int (length xs) then Inr (xs ! nat i)
      else if i < 0 \<and> - int (length xs) \<le> i then Inr (xs ! nat (int (length xs) + i))
      else Inl IndexError)"

text \<open>\<open>xs[start:stop]\<close>: bounds are clipped to the sequence, negative ones count from the end.\<close>

definition slice_index :: "int \<Rightarrow> int \<Rightarrow> nat" where
  "slice_index n i = nat (if i < 0 then max 0 (n + i) else min i n)"

definition py_slice :: "'a list \<Rightarrow> int \<Rightarrow> int \<Rightarrow> 'a list" where
  "py_slice xs start stop =
     (let n = int (length xs); s = slice_index n start; e = slice_index n stop
      in take (e - s) (drop s xs))"

text \<open>\<open>c * n\<close> for a one-character string \<open>c\<close>: empty when \<open>n\<close> is not positive.\<close>

definition rep :: "uchar \<Rightarrow> int \<Rightarrow> ustring" where
  "rep c n = replicate (nat n) c"

text \<open>\<open>str.isspace\<close>, the characters that \<open>strip()\<close> and \<open>split()\<close> treat as whitespace.\<close>

definition is_space :: "uchar \<Rightarrow> bool" where
  "is_space c \<longleftrightarrow>
     (9 \<le> c \<and> c \<le> 13) \<or> (28 \<le> c \<and> c \<le> 32) \<or> c = 133 \<or> c = 160 \<or> c = 5760 \<or>
     (8192 \<le> c \<and> c \<le> 8202) \<or> c = 8232 \<or> c = 8233 \<or> c = 8239 \<or> c = 8287 \<or> c = 12288"

definition strip :: "ustring \<Rightarrow> ustring" where
  "strip s = rev (dropWhile is_space (rev (dropWhile is_space s)))"

text \<open>
  \<open>s.split(sep)\<close> scans left to right for non-overlapping occurrences of \<open>sep\<close>.
  Every call of the program passes a non-empty constant separator (Python raises
  ValueError on an empty one).
\<close>

fun split_loop :: "ustring \<Rightarrow> ustring \<Rightarrow> ustring \<Rightarrow> ustring list" where
  "split_loop sep cur [] = [cur]"
| "split_loop sep cur (c # cs) =
     (if sep \<noteq> [] \<and> prefix sep (c # cs)
      then cur # split_loop sep [] (drop (length sep) (c # cs))
      else split_loop sep (cur @ [c]) cs)"

definition str_split :: "ustring \<Rightarrow> ustring \<Rightarrow> ustring list" where
  "str_split sep s = split_loop sep [] s"

text \<open>
  Where a separator occurs: \<open>absent sep s\<close> when it starts at no position of \<open>s\<close>,
  \<open>first_at sep s n\<close> when it starts at position \<open>n\<close> and at no earlier one.
\<close>

definition absent :: "ustring \<Rightarrow> ustring \<Rightarrow> bool" where
  "absent sep s \<longleftrightarrow> list_all (\<lambda>i. \<not> prefix sep (drop i s)) [0 ..< length s]"

definition first_at :: "ustring \<Rightarrow> ustring \<Rightarrow> nat \<Rightarrow> bool" where
  "first_at sep s n \<longleftrightarrow>
     prefix sep (drop n s) \<and> list_all (\<lambda>i. \<not> prefix sep (drop i s)) [0 ..< n]"

text \<open>\<open>s.split()\<close>: the maximal runs of non-whitespace characters.\<close>

fun split_ws_loop :: "ustring \<Rightarrow> ustring \<Rightarrow> ustring list" where
  "split_ws_loop cur [] = (if cur = [] then [] else [cur])"
| "split_ws_loop cur (c # cs) =
     (if is_space c
      then (if cur = [] then split_ws_loop [] cs else cur # split_ws_loop [] cs)
      else split_ws_loop (cur @ [c]) cs)"

definition split_ws :: "ustring \<Rightarrow> ustring list" where
  "split_ws s = split_ws_loop [] s"

text \<open>\<open>s.replace(old, new)\<close>: every non-overlapping occurrence, left to right.\<close>

fun replace_loop :: "ustring \<Rightarrow> ustring \<Rightarrow> ustring \<Rightarrow> ustring" where
  "replace_loop old new [] = []"
| "replace_loop old new (c # cs) =
     (if old \<noteq> [] \<and> prefix old (c # cs)
      then new @ replace_loop old new (drop (length old) (c # cs))
      else c # replace_loop old new cs)"

definition str_replace :: "ustring \<Rightarrow> ustring \<Rightarrow> ustring \<Rightarrow> ustring" where
  "str_replace old new s =
     (if old = [] then new @ concat (map (\<lambda>c. c # new) s) else replace_loop old new s)"

text \<open>\<open>sep.join(xs)\<close>\<close>

fun join :: "ustring \<Rightarrow> ustring list \<Rightarrow> ustring" where
  "join sep [] = []"
| "join sep [x] = x"
| "join sep (x # y # ys) = x @ sep @ join sep (y # ys)"

text \<open>\<open>str(n)\<close> for an integer.\<close>

fun digits :: "nat \<Rightarrow> ustring" where
  "digits n = (if n < 10 then [48 + n] else digits (n div 10) @ [48 + n mod 10])"

definition str_int :: "int \<Rightarrow> ustring" where
  "str_int n = (if n < 0 then 45 # digits (nat (- n)) else digits (nat n))"


section \<open>Text metrics\<close>

text \<open>
  \<open>unicodedata.east_asian_width(char) in ('F', 'W')\<close> is a table of the Unicode
  database, not of this program: every function that measures takes it as the
  parameter \<open>wide\<close>.
\<close>

fun width_loop :: "(uchar \<Rightarrow> bool) \<Rightarrow> int \<Rightarrow> ustring \<Rightarrow> int" where
  "width_loop wide width [] = width"
| "width_loop wide width (char # text) =
     width_loop wide (if wide char then width + 2 else width + 1) text"

definition get_display_width :: "(uchar \<Rightarrow> bool) \<Rightarrow> ustring \<Rightarrow> int" where
  "get_display_width wide text = width_loop wide 0 text"

text \<open>The loop of \<open>truncate_to_width\<close>; it returns \<open>(result, truncated)\<close>.\<close>

fun truncate_loop ::
  "(uchar \<Rightarrow> bool) \<Rightarrow> int \<Rightarrow> int \<Rightarrow> ustring \<Rightarrow> ustring \<Rightarrow> ustring \<times> bool" where
  "truncate_loop wide effective_max current_width result [] = (result, False)"
| "truncate_loop wide effective_max current_width result (char # text) =
     (let char_width = (if wide char then 2 else 1)
      in if current_width + char_width > effective_max then (result, True)
         else truncate_loop wide effective_max (current_width + char_width)
                (result @ [char]) text)"

definition truncate_to_width :: "(uchar \<Rightarrow> bool) \<Rightarrow> ustring \<Rightarrow> int \<Rightarrow> bool \<Rightarrow> ustring" where
  "truncate_to_width wide text max_width add_indicator =
     (let effective_max = (if add_indicator then max_width - 1 else max_width);
          (result, truncated) = truncate_loop wide effective_max 0 [] text
      in if truncated \<and> add_indicator then result @ [ellipsis] else result)"

text \<open>
  A few rows of the East Asian Width table, for evaluating the program on concrete
  inputs: the CJK Unified Ideographs are Wide, the Fullwidth Forms are Fullwidth; ASCII,
  the ellipsis U+2026, the arrow U+2195 and the box-drawing characters are neither.
\<close>

definition wide_cjk :: "uchar \<Rightarrow> bool" where
  "wide_cjk c \<longleftrightarrow> (19968 \<le> c \<and> c \<le> 40959) \<or> (65281 \<le> c \<and> c \<le> 65376)"


section \<open>Slides\<close>

record slide =
  filepath :: ustring
  filename :: ustring
  title :: ustring
  content :: ustring
  slide_notes :: ustring

definition speaker_notes_marker :: ustring where
  "speaker_notes_marker = ustr ''## Speaker Notes''"

definition basename :: "ustring \<Rightarrow> ustring" where
  "basename p = rev (takeWhile (\<lambda>c. c \<noteq> 47) (rev p))"

text \<open>
  The body of the loop of \<open>_load_slides\<close> for one file, given its path and the text
  read from it.
\<close>

definition parse_slide :: "ustring \<Rightarrow> ustring \<Rightarrow> py_error + slide" where
  "parse_slide path text =
     (case str_split speaker_notes_marker text of
        [] \<Rightarrow> Inl IndexError
      | p0 # rest \<Rightarrow>
          (let slide_content = strip p0;
               speaker_notes = (case rest of p1 # _ \<Rightarrow> strip p1 | [] \<Rightarrow> []);
               lines = str_split [newline] slide_content;
               title = (case lines of l0 # _ \<Rightarrow> str_replace (ustr ''# '') [] l0
                                    | [] \<Rightarrow> ustr ''Untitled'')
           in Inr \<lparr> filepath = path, filename = basename path, title = title,
                    content = slide_content, slide_notes = speaker_notes \<rparr>))"

text \<open>\<open>_load_slides\<close> over the sorted files, each a pair of path and text.\<close>

fun load_slides :: "(ustring \<times> ustring) list \<Rightarrow> py_error + slide list" where
  "load_slides [] = Inr []"
| "load_slides ((path, text) # files) =
     (case parse_slide path text of
        Inl e \<Rightarrow> Inl e
      | Inr s \<Rightarrow> (case load_slides files of Inl e \<Rightarrow> Inl e | Inr ss \<Rightarrow> Inr (s # ss)))"


section \<open>Layout\<close>

definition max_width_loop :: "(uchar \<Rightarrow> bool) \<Rightarrow> int \<Rightarrow> ustring list \<Rightarrow> int" where
  "max_width_loop wide max_content_width lines =
     foldl (\<lambda>m line. let dw = get_display_width wide line in if dw > m then dw else m)
       max_content_width lines"

definition prepare_line :: "(uchar \<Rightarrow> bool) \<Rightarrow> int \<Rightarrow> int \<Rightarrow> ustring \<Rightarrow> ustring" where
  "prepare_line wide width left_padding line0 =
     (let line_width = get_display_width wide line0;
          line = (if left_padding + line_width > width
                  then truncate_to_width wide line0 (width - left_padding) True
                  else line0);
          padded_line = rep space left_padding @ line;
          padded_width = get_display_width wide padded_line
      in if padded_width < width then padded_line @ rep space (width - padded_width)
         else padded_line)"

definition prepare_slide_content :: "(uchar \<Rightarrow> bool) \<Rightarrow> ustring \<Rightarrow> int \<Rightarrow> ustring list" where
  "prepare_slide_content wide text width =
     (let lines = str_split [newline] text;
          max_content_width = max_width_loop wide 0 lines;
          left_padding = (if max_content_width \<ge> width then 0
                          else (width - max_content_width) div 2)
      in map (prepare_line wide width left_padding) lines)"

definition is_fence :: "ustring \<Rightarrow> bool" where
  "is_fence line = prefix (ustr ''```'') (strip line)"

text \<open>The loop of \<open>_extract_ascii_art\<close>, from the flag \<open>in_code_block\<close> to \<open>art_lines\<close>.\<close>

fun art_loop :: "bool \<Rightarrow> ustring list \<Rightarrow> ustring list" where
  "art_loop in_code_block [] = []"
| "art_loop in_code_block (line # lines) =
     (if is_fence line then art_loop (\<not> in_code_block) lines
      else if in_code_block then line # art_loop in_code_block lines
      else art_loop in_code_block lines)"

definition extract_ascii_art :: "ustring \<Rightarrow> ustring" where
  "extract_ascii_art text =
     (let art_lines = art_loop False (str_split [newline] text)
      in if art_lines \<noteq> [] then join [newline] art_lines else text)"

text \<open>
  The lines inside fenced blocks, said without the loop: a line that is no fence marker
  and has an odd number of fence markers before it.
\<close>

definition fenced_lines :: "ustring list \<Rightarrow> ustring list" where
  "fenced_lines ls =
     map (\<lambda>i. ls ! i)
       (filter (\<lambda>i. \<not> is_fence (ls ! i) \<and> odd (length (filter is_fence (take i ls))))
          [0 ..< length ls])"

text \<open>\<open>if current_line: lines.append(' '.join(current_line))\<close>\<close>

definition flush_line :: "ustring list \<Rightarrow> ustring list \<Rightarrow> ustring list" where
  "flush_line lines current_line =
     (if current_line \<noteq> [] then lines @ [join [space] current_line] else lines)"

text \<open>The loop of \<open>_wrap_text\<close>; it returns \<open>(lines, current_line)\<close>.\<close>

fun wrap_loop ::
  "int \<Rightarrow> ustring list \<Rightarrow> ustring list \<Rightarrow> int \<Rightarrow> ustring list \<Rightarrow> ustring list \<times> ustring list" where
  "wrap_loop width lines current_line current_length [] = (lines, current_line)"
| "wrap_loop width lines current_line current_length (word # words) =
     (let word_len = int (length word)
      in if current_length + word_len + (if current_line \<noteq> [] then 1 else 0) \<le> width
         then wrap_loop width lines (current_line @ [word])
                (current_length + word_len +
                   (if length (current_line @ [word]) > 1 then 1 else 0)) words
         else wrap_loop width (flush_line lines current_line) [word] word_len words)"

definition wrap_text :: "ustring \<Rightarrow> int \<Rightarrow> ustring list" where
  "wrap_text text width =
     (let (lines0, current_line) = wrap_loop width [] [] 0 (split_ws text);
          lines = flush_line lines0 current_line
      in if lines \<noteq> [] then lines else [[]])"


section \<open>The presenter\<close>

record slideshow =
  slides_dir :: ustring
  slides :: "slide list"
  current_index :: int
  scroll_offset :: int
  show_notes :: bool
  notes_height :: int

definition init :: "ustring \<Rightarrow> slide list \<Rightarrow> slideshow" where
  "init dir loaded =
     \<lparr> slides_dir = dir, slides = loaded, current_index = 0, scroll_offset = 0,
       show_notes = False, notes_height = 6 \<rparr>"

text \<open>
  What one pass of \<open>_render_slide\<close> puts on the screen: the rows of the content region,
  the rows of the notes panel when it is shown, the status line, and the three values
  the pass hands to the status bar. The styling escape sequences printed between the
  rows take no column and are left out.
\<close>

record frame =
  screen_lines :: "ustring list"
  notes_panel :: "ustring list option"
  status_line :: ustring
  frame_needs_scroll :: bool
  frame_total_lines :: int
  frame_visible_lines :: int

definition wrap_notes :: "ustring \<Rightarrow> int \<Rightarrow> ustring list" where
  "wrap_notes notes_text inner_width =
     concat (map (\<lambda>paragraph. if strip paragraph \<noteq> []
                               then wrap_text (strip paragraph) inner_width else [[]])
               (str_split [newline] notes_text))"

definition notes_row :: "int \<Rightarrow> ustring list \<Rightarrow> nat \<Rightarrow> ustring" where
  "notes_row width wrapped_lines i =
     (if i < length wrapped_lines
      then (let line_content = wrapped_lines ! i;
                padding = (width - 4) - int (length line_content)
            in [9474, space] @ line_content @ rep space padding @ [space, 9474])
      else [9474] @ rep space (width - 2) @ [9474])"

text \<open>
  \<open>_render_notes_panel\<close> looks the current slide up and prints the panel; the rows it
  prints for that slide are \<open>notes_panel_rows\<close>.
\<close>

definition notes_panel_rows :: "slide \<Rightarrow> int \<Rightarrow> int \<Rightarrow> ustring list" where
  "notes_panel_rows sl width panel_height =
     (let notes_text = (if slide_notes sl \<noteq> [] then strip (slide_notes sl)
                        else ustr ''(No speaker notes)'');
          top_border = [9484] @ rep 9472 (width - 2) @ [9488];
          bottom_border = [9492] @ rep 9472 (width - 2) @ [9496];
          title_line = [9474] @ ustr '' SPEAKER NOTES'' @ rep space (width - 17) @ [9474];
          separator = [9500] @ rep 9472 (width - 2) @ [9508];
          inner_width = width - 4;
          wrapped_lines = wrap_notes notes_text inner_width;
          available_content_lines = panel_height - 4;
          content_lines = map (notes_row width wrapped_lines)
                            [0 ..< nat available_content_lines]
      in [top_border, title_line, separator] @ content_lines @ [bottom_border])"

definition render_notes_panel :: "slideshow \<Rightarrow> int \<Rightarrow> int \<Rightarrow> py_error + ustring list" where
  "render_notes_panel self width panel_height =
     (case py_index (slides self) (current_index self) of
        Inl e \<Rightarrow> Inl e
      | Inr sl \<Rightarrow> Inr (notes_panel_rows sl width panel_height))"

text \<open>
  \<open>_render_status_bar\<close> looks the current slide up and prints the status line, which
  is \<open>status_bar_line\<close> for that slide.
\<close>

definition status_bar_line ::
  "slideshow \<Rightarrow> slide \<Rightarrow> int \<Rightarrow> bool \<Rightarrow> int \<Rightarrow> int \<Rightarrow> ustring" where
  "status_bar_line self sl width needs_scroll total_lines visible_lines =
     (let position = ustr ''['' @ str_int (current_index self + 1) @ ustr ''/'' @
                       str_int (int (length (slides self))) @ ustr '']'';
          scroll_indicator =
            (if needs_scroll
             then [space, 8597] @ str_int (scroll_offset self + 1) @ ustr ''/'' @
                    str_int (total_lines - visible_lines + 1)
             else []);
          notes_indicator = (if show_notes self then ustr '' [notes ON]'' else []);
          help_hint = (if needs_scroll then ustr ''[j/k]scroll [s]notes [n]ext [p]rev [q]uit''
                       else ustr ''[s]notes [n]ext [p]rev [h]elp [q]uit'');
          status0 = [space] @ position @ scroll_indicator @ notes_indicator @
                      [space, space] @ title sl;
          min_spacing = 2;
          available0 = width - int (length status0) - int (length help_hint) - min_spacing;
          max_title_len = width - int (length position) - int (length scroll_indicator) -
                            int (length help_hint) - 8;
          status = (if available0 < 1 \<and> max_title_len > 3
                    then [space] @ position @ scroll_indicator @ [space, space] @
                           py_slice (title sl) 0 (max_title_len - 1) @ [ellipsis]
                    else status0);
          available_for_padding =
            (if available0 < 1 \<and> max_title_len > 3
             then width - int (length status) - int (length help_hint) - min_spacing
             else available0);
          padding = max 1 available_for_padding;
          line = status @ rep space padding @ help_hint
      in if int (length line) < width
         then line @ rep space (width - int (length line))
         else py_slice line 0 width)"

definition render_status_bar ::
  "slideshow \<Rightarrow> int \<Rightarrow> bool \<Rightarrow> int \<Rightarrow> int \<Rightarrow> py_error + ustring" where
  "render_status_bar self width needs_scroll total_lines visible_lines =
     (case py_index (slides self) (current_index self) of
        Inl e \<Rightarrow> Inl e
      | Inr sl \<Rightarrow>
          Inr (status_bar_line self sl width needs_scroll total_lines visible_lines))"

text \<open>
  \<open>_render_slide\<close>, given the terminal size; it returns the state with the clamped
  scroll offset and the frame.
\<close>

definition render_slide ::
  "(uchar \<Rightarrow> bool) \<Rightarrow> slideshow \<Rightarrow> int \<Rightarrow> int \<Rightarrow> py_error + slideshow \<times> frame" where
  "render_slide wide self0 width height =
     (case py_index (slides self0) (current_index self0) of
        Inl e \<Rightarrow> Inl e
      | Inr sl \<Rightarrow>
          (let content_lines = prepare_slide_content wide (extract_ascii_art (content sl)) width;
               total_content_height = int (length content_lines);
               notes_panel_height = (if show_notes self0 then notes_height self0 + 4 else 0);
               available_height = height - 1 - notes_panel_height;
               needs_scroll = total_content_height > available_height;
               self = self0 \<lparr> scroll_offset :=
                        (if needs_scroll
                         then max 0 (min (scroll_offset self0)
                                (total_content_height - available_height))
                         else 0) \<rparr>;
               shown = (if needs_scroll
                        then py_slice content_lines (scroll_offset self)
                               (scroll_offset self + available_height)
                        else content_lines);
               top_padding = (if needs_scroll then 0
                              else max 0 ((available_height - total_content_height) div 2));
               padded = replicate (nat top_padding) (rep space width) @ shown;
               bottom_padding = available_height - int (length padded);
               screen = padded @ replicate (nat bottom_padding) (rep space width)
           in case (if show_notes self
                    then map_sum id Some (render_notes_panel self width notes_panel_height)
                    else Inr None) of
                Inl e \<Rightarrow> Inl e
              | Inr panel \<Rightarrow>
                  (case render_status_bar self width needs_scroll total_content_height
                          available_height of
                     Inl e \<Rightarrow> Inl e
                   | Inr bar \<Rightarrow>
                       Inr (self, \<lparr> screen_lines = screen, notes_panel = panel,
                                    status_line = bar, frame_needs_scroll = needs_scroll,
                                    frame_total_lines = total_content_height,
                                    frame_visible_lines = available_height \<rparr>))))"

subsection \<open>Navigation\<close>

definition next_slide :: "slideshow \<Rightarrow> slideshow" where
  "next_slide self =
     (if current_index self < int (length (slides self)) - 1
      then self \<lparr> current_index := current_index self + 1, scroll_offset := 0 \<rparr>
      else self)"

definition prev_slide :: "slideshow \<Rightarrow> slideshow" where
  "prev_slide self =
     (if current_index self > 0
      then self \<lparr> current_index := current_index self - 1, scroll_offset := 0 \<rparr>
      else self)"

definition goto_slide :: "slideshow \<Rightarrow> int \<Rightarrow> slideshow" where
  "goto_slide self index =
     (if 1 \<le> index \<and> index \<le> int (length (slides self))
      then self \<lparr> current_index := index - 1, scroll_offset := 0 \<rparr>
      else self)"

definition scroll_down :: "slideshow \<Rightarrow> int \<Rightarrow> slideshow" where
  "scroll_down self lines = self \<lparr> scroll_offset := scroll_offset self + lines \<rparr>"

definition scroll_up :: "slideshow \<Rightarrow> int \<Rightarrow> slideshow" where
  "scroll_up self lines = self \<lparr> scroll_offset := max 0 (scroll_offset self - lines) \<rparr>"

text \<open>The branches of the key loop of \<open>run\<close> that change the state in place.\<close>

definition first_slide :: "slideshow \<Rightarrow> slideshow" where
  "first_slide self = self \<lparr> current_index := 0, scroll_offset := 0 \<rparr>"

definition last_slide :: "slideshow \<Rightarrow> slideshow" where
  "last_slide self =
     self \<lparr> current_index := int (length (slides self)) - 1, scroll_offset := 0 \<rparr>"

definition toggle_notes :: "slideshow \<Rightarrow> slideshow" where
  "toggle_notes self = self \<lparr> show_notes := \<not> show_notes self \<rparr>"

definition grow_notes :: "slideshow \<Rightarrow> slideshow" where
  "grow_notes self =
     (if show_notes self then self \<lparr> notes_height := min (notes_height self + 2) 20 \<rparr>
      else self)"

definition shrink_notes :: "slideshow \<Rightarrow> slideshow" where
  "shrink_notes self =
     (if show_notes self then self \<lparr> notes_height := max (notes_height self - 2) 2 \<rparr>
      else self)"

text \<open>A sequence of scroll keys.\<close>

datatype scroll = ScrollDown int | ScrollUp int

fun do_scroll :: "slideshow \<Rightarrow> scroll \<Rightarrow> slideshow" where
  "do_scroll self (ScrollDown lines) = scroll_down self lines"
| "do_scroll self (ScrollUp lines) = scroll_up self lines"


section \<open>Sample inputs\<close>

text \<open>
  A deck of one slide with five short lines and one line of notes, opened with the
  presenter scrolled down by three lines.
\<close>

definition sample_slide :: slide where
  "sample_slide =
     \<lparr> filepath = ustr ''slides/01.md'', filename = ustr ''01.md'', title = ustr ''Intro'',
       content = ustr ''1\<newline>2\<newline>3\<newline>4\<newline>5'',
       slide_notes = ustr ''hello world foo'' \<rparr>"

definition sample_show :: slideshow where
  "sample_show =
     \<lparr> slides_dir = ustr ''slides'', slides = [sample_slide], current_index = 0,
       scroll_offset = 3, show_notes = False, notes_height = 6 \<rparr>"


section \<open>Display width\<close>

lemma width_loop_acc: "width_loop wide w t = w + width_loop wide 0 t"
proof (induction t arbitrary: w)
  case Nil show ?case by simp
next
  case (Cons c t)
  show ?case using Cons.IH [of "w + 2"] Cons.IH [of "w + 1"] Cons.IH [of 2] Cons.IH [of 1]
    by simp
qed

lemma gdw_Nil: "get_display_width wide [] = 0"
  by (simp add: get_display_width_def)

lemma gdw_Cons:
  "get_display_width wide (c # t) = (if wide c then 2 else 1) + get_display_width wide t"
  using width_loop_acc [of wide 2 t] width_loop_acc [of wide 1 t]
  by (simp add: get_display_width_def)

lemma gdw_append:
  "get_display_width wide (a @ b) = get_display_width wide a + get_display_width wide b"
  by (induction a) (simp_all add: gdw_Nil gdw_Cons)

lemma gdw_nonneg: "0 \<le> get_display_width wide t"
  by (induction t) (simp_all add: gdw_Nil gdw_Cons)

lemma gdw_rep: "\<not> wide c \<Longrightarrow> get_display_width wide (rep c n) = max 0 n"
proof -
  assume n: "\<not> wide c"
  have "get_display_width wide (replicate k c) = int k" for k
    by (induction k) (simp_all add: gdw_Nil gdw_Cons n)
  then show ?thesis by (simp add: rep_def)
qed

lemma truncate_loop_width:
  "get_display_width wide (fst (truncate_loop wide em cw res t))
     - get_display_width wide res + cw \<le> max cw em"
proof (induction t arbitrary: cw res)
  case Nil show ?case by simp
next
  case (Cons c t)
  show ?case
    using Cons.IH [of "cw + 2" "res @ [c]"] Cons.IH [of "cw + 1" "res @ [c]"]
    by (cases "wide c") (auto simp: Let_def gdw_append gdw_Cons gdw_Nil max_def split: if_splits)
qed

lemma truncate_loop_flag:
  "cw \<le> em \<Longrightarrow>
   snd (truncate_loop wide em cw res t) \<longleftrightarrow> cw + get_display_width wide t > em"
proof (induction t arbitrary: cw res)
  case Nil then show ?case by (simp add: gdw_Nil)
next
  case (Cons c t)
  show ?case
    using Cons.IH [of "cw + 2" "res @ [c]"] Cons.IH [of "cw + 1" "res @ [c]"]
      gdw_nonneg [of wide t] Cons.prems
    by (cases "wide c") (auto simp: Let_def gdw_Cons)
qed

lemma truncate_loop_whole:
  "\<not> snd (truncate_loop wide em cw res t) \<Longrightarrow>
   fst (truncate_loop wide em cw res t) = res @ t"
proof (induction t arbitrary: cw res)
  case Nil show ?case by simp
next
  case (Cons c t)
  then show ?case
    by (simp add: Let_def split: if_splits)
qed

lemma truncate_loop_prefix:
  "\<exists>p. fst (truncate_loop wide em cw res t) = res @ p \<and> prefix p t"
proof (induction t arbitrary: cw res)
  case Nil show ?case by simp
next
  case (Cons c t)
  show ?case
  proof (cases "cw + (if wide c then 2 else 1) > em")
    case True then show ?thesis by (simp add: Let_def)
  next
    case False
    obtain p where "fst (truncate_loop wide em (cw + (if wide c then 2 else 1)) (res @ [c]) t) = (res @ [c]) @ p" "prefix p t"
      using Cons.IH by blast
    then show ?thesis using False
      by (intro exI [of _ "c # p"]) (simp add: Let_def)
  qed
qed

lemma truncate_plain_width:
  "0 \<le> max_width \<Longrightarrow>
   get_display_width wide (truncate_to_width wide t max_width False) \<le> max_width"
  using truncate_loop_width [of wide max_width 0 "[]" t]
  by (simp add: truncate_to_width_def gdw_Nil split_beta Let_def)

lemma truncate_indicator_width:
  "1 \<le> max_width \<Longrightarrow> \<not> wide ellipsis \<Longrightarrow>
   get_display_width wide (truncate_to_width wide t max_width True) \<le> max_width"
  using truncate_loop_width [of wide "max_width - 1" 0 "[]" t]
  by (simp add: truncate_to_width_def gdw_Nil gdw_append gdw_Cons split_beta Let_def)

lemma truncate_indicator_fits:
  "1 \<le> max_width \<Longrightarrow> get_display_width wide t \<le> max_width - 1 \<Longrightarrow>
   truncate_to_width wide t max_width True = t"
  using truncate_loop_flag [of 0 "max_width - 1" wide "[]" t]
    truncate_loop_whole [of wide "max_width - 1" 0 "[]" t]
  by (simp add: truncate_to_width_def Let_def split_beta)

lemma truncate_indicator_cut:
  assumes "1 \<le> max_width" and "get_display_width wide t > max_width - 1"
  shows "\<exists>p. truncate_to_width wide t max_width True = p @ [ellipsis] \<and> prefix p t \<and>
             get_display_width wide p \<le> max_width - 1"
proof -
  obtain p where p: "fst (truncate_loop wide (max_width - 1) 0 [] t) = [] @ p" "prefix p t"
    using truncate_loop_prefix [of wide "max_width - 1" 0 "[]" t] by blast
  have "snd (truncate_loop wide (max_width - 1) 0 [] t)"
    using truncate_loop_flag [of 0 "max_width - 1" wide "[]" t] assms by simp
  moreover have "get_display_width wide p \<le> max_width - 1"
    using truncate_loop_width [of wide "max_width - 1" 0 "[]" t] p assms
    by (simp add: gdw_Nil)
  ultimately show ?thesis
    using p by (simp add: truncate_to_width_def Let_def split_beta)
qed


text \<open>
  C6 says that the result of \<open>truncate_to_width\<close> is never wider than \<open>max_width\<close>, for
  every \<open>max_width \<ge> 0\<close> and either value of \<open>add_indicator\<close>, as the docstring of the
  function does. The code breaks this at \<open>text = "a"\<close>, \<open>max_width = 0\<close>,
  \<open>add_indicator = True\<close>: the budget left after reserving the indicator's column is
  \<open>-1\<close>, the first character already exceeds it, and the result is the indicator
  alone, one column wide in a budget of none. Everywhere else the claim holds: with
  indicator the result fits for \<open>max_width \<ge> 1\<close> (\<open>truncate_indicator_width\<close>), without
  it for \<open>max_width \<ge> 0\<close> (\<open>truncate_plain_width\<close>), and the indicator is appended
  exactly when the text is wider than \<open>max_width - 1\<close> (\<open>truncate_indicator_fits\<close>,
  \<open>truncate_indicator_cut\<close>).
\<close>

theorem truncate_to_width_zero_budget:
  "truncate_to_width wide_cjk (ustr ''a'') 0 True = [ellipsis] \<and>
   get_display_width wide_cjk (truncate_to_width wide_cjk (ustr ''a'') 0 True) = 1"
  by (simp add: truncate_to_width_def ustr_def wide_cjk_def get_display_width_def
      ellipsis_def)


section \<open>Centred slide content\<close>

lemma max_width_loop_ge:
  "m \<le> max_width_loop wide m ls \<and> (\<forall>l\<in>set ls. get_display_width wide l \<le> max_width_loop wide m ls)"
proof (induction ls arbitrary: m)
  case Nil show ?case by (simp add: max_width_loop_def)
next
  case (Cons l ls)
  show ?case
    using Cons.IH [of m] Cons.IH [of "get_display_width wide l"]
    by (auto simp: max_width_loop_def Let_def)
qed

lemma prepare_line_width:
  assumes w: "1 \<le> width" and sp: "\<not> wide space" and el: "\<not> wide ellipsis"
    and lp: "0 \<le> lp" and fit: "lp = 0 \<or> lp + get_display_width wide l \<le> width"
  shows "get_display_width wide (prepare_line wide width lp l) = width"
proof -
  have gsp: "get_display_width wide (rep space n) = max 0 n" for n
    using sp by (rule gdw_rep)
  show ?thesis
  proof (cases "lp + get_display_width wide l > width")
    case True
    with fit have z: "lp = 0" by auto
    have "get_display_width wide (truncate_to_width wide l width True) \<le> width"
      using w el by (rule truncate_indicator_width)
    with True z show ?thesis
      by (simp add: prepare_line_def Let_def gdw_append gsp)
  next
    case False
    with lp show ?thesis
      by (simp add: prepare_line_def Let_def gdw_append gsp)
  qed
qed

lemma prepare_slide_content_width:
  assumes w: "1 \<le> width" and sp: "\<not> wide space" and el: "\<not> wide ellipsis"
    and l: "l \<in> set (prepare_slide_content wide t width)"
  shows "get_display_width wide l = width"
proof -
  define ls where "ls = str_split [newline] t"
  define m where "m = max_width_loop wide 0 ls"
  define lp where "lp = (if m \<ge> width then 0 else (width - m) div 2)"
  from l obtain l0 where l0: "l0 \<in> set ls" and eq: "l = prepare_line wide width lp l0"
    by (auto simp: prepare_slide_content_def Let_def ls_def m_def lp_def)
  have "get_display_width wide l0 \<le> m"
    using max_width_loop_ge [of 0 wide ls] l0 by (simp add: m_def)
  then have "0 \<le> lp" "lp = 0 \<or> lp + get_display_width wide l0 \<le> width"
    by (auto simp: lp_def)
  then show ?thesis
    unfolding eq using w sp el by (intro prepare_line_width)
qed


text \<open>
  C1 says that every line returned by \<open>_prepare_slide_content\<close> is exactly \<open>width\<close>
  columns wide, for every body and width, as the docstring of the function does. The
  code breaks this at \<open>text = "a"\<close>, \<open>width = 0\<close>: the one line is wider than the
  terminal, is truncated with indicator to a budget of no column, and comes back as the
  indicator alone, one column wide. For every \<open>width \<ge> 1\<close> the claim holds
  (\<open>prepare_slide_content_width\<close>).
\<close>

theorem prepare_slide_content_zero_width:
  "prepare_slide_content wide_cjk (ustr ''a'') 0 = [[ellipsis]] \<and>
   map (get_display_width wide_cjk) (prepare_slide_content wide_cjk (ustr ''a'') 0) = [1]"
  by (simp add: prepare_slide_content_def str_split_def ustr_def newline_def
      max_width_loop_def get_display_width_def wide_cjk_def prepare_line_def
      truncate_to_width_def rep_def Let_def ellipsis_def)


section \<open>Fenced blocks\<close>

lemma art_loop_append:
  "art_loop b (xs @ ys) =
     art_loop b xs @ art_loop (b \<noteq> odd (length (filter is_fence xs))) ys"
  by (induction xs arbitrary: b) auto

lemma art_loop_no_fence:
  "\<forall>l\<in>set xs. \<not> is_fence l \<Longrightarrow> art_loop b xs = (if b then xs else [])"
  by (induction xs) auto

lemma fenced_lines_snoc:
  "fenced_lines (ls @ [l]) =
     fenced_lines ls @
       (if \<not> is_fence l \<and> odd (length (filter is_fence ls)) then [l] else [])"
proof -
  have "map (\<lambda>i. (ls @ [l]) ! i)
          (filter (\<lambda>i. \<not> is_fence ((ls @ [l]) ! i) \<and>
                        odd (length (filter is_fence (take i (ls @ [l])))))
             [0 ..< length ls])
        = fenced_lines ls"
    unfolding fenced_lines_def
    by (intro map_cong filter_cong refl arg_cong2 [where f = "(\<and>)"]) (auto simp: nth_append)
  then show ?thesis
    by (simp add: fenced_lines_def [of "ls @ [l]"])
qed

lemma art_loop_fenced_lines: "art_loop False ls = fenced_lines ls"
proof (induction ls rule: rev_induct)
  case Nil show ?case by (simp add: fenced_lines_def)
next
  case (snoc l ls)
  then show ?case
    by (simp add: art_loop_append fenced_lines_snoc)
qed

lemma extract_single_block:
  assumes "\<forall>l\<in>set (pre @ mid @ post). \<not> is_fence l" and "is_fence f1" and "is_fence f2"
    and "mid \<noteq> []" and "str_split [newline] t = pre @ [f1] @ mid @ [f2] @ post"
  shows "extract_ascii_art t = join [newline] mid"
proof -
  have "art_loop False (pre @ [f1] @ mid @ [f2] @ post) = mid"
    using assms(1-3) by (simp add: art_loop_append art_loop_no_fence)
  with assms(4,5) show ?thesis
    by (simp add: extract_ascii_art_def Let_def)
qed

text \<open>
  C3 as stated fails: with two fenced blocks the content is the text of both, not of
  the first alone.
\<close>

theorem extract_ascii_art_two_blocks:
  "extract_ascii_art (ustr ''```\<newline>a\<newline>```\<newline>b\<newline>```\<newline>c\<newline>```'') = ustr ''a\<newline>c'' \<and>
   extract_ascii_art (ustr ''```\<newline>a\<newline>```\<newline>b\<newline>```\<newline>c\<newline>```'') \<noteq> ustr ''a''"
  by (simp add: extract_ascii_art_def str_split_def ustr_def newline_def is_fence_def
      strip_def is_space_def)

text \<open>
  C3, amended: the content handed to the layout engine is the lines inside all fenced
  blocks, in order and joined by newlines, the fence markers dropped; when no line is
  inside a fenced block the body is used whole.
\<close>

theorem extract_ascii_art_all_blocks:
  "extract_ascii_art t =
     (if fenced_lines (str_split [newline] t) \<noteq> []
      then join [newline] (fenced_lines (str_split [newline] t)) else t)"
  by (simp add: extract_ascii_art_def Let_def art_loop_fenced_lines)

section \<open>Rendering a slide\<close>

lemma py_index_valid:
  "0 \<le> i \<Longrightarrow> i < int (length xs) \<Longrightarrow> py_index xs i = Inr (xs ! nat i)"
  by (simp add: py_index_def)

lemma render_slide_Inr:
  assumes ix: "py_index (slides s) (current_index s) = Inr sl"
  shows "\<exists>s' f. render_slide wide s w h = Inr (s', f) \<and>
           frame_total_lines f =
             int (length (prepare_slide_content wide (extract_ascii_art (content sl)) w)) \<and>
           frame_visible_lines f = h - 1 - (if show_notes s then notes_height s + 4 else 0) \<and>
           frame_needs_scroll f = (frame_total_lines f > frame_visible_lines f) \<and>
           s' = s \<lparr> scroll_offset :=
                  (if frame_total_lines f > frame_visible_lines f
                   then max 0 (min (scroll_offset s) (frame_total_lines f - frame_visible_lines f))
                   else 0) \<rparr>"
  using ix
  by (simp add: render_slide_def render_notes_panel_def render_status_bar_def Let_def)

lemma render_slide_exact:
  assumes ix: "py_index (slides s) (current_index s) = Inr sl"
  shows "let content_lines = prepare_slide_content wide (extract_ascii_art (content sl)) w;
             n_lines = int (length content_lines);
             available = h - 1 - (if show_notes s then notes_height s + 4 else 0);
             offset = (if n_lines > available
                       then max 0 (min (scroll_offset s) (n_lines - available)) else 0);
             shown = (if n_lines > available
                      then py_slice content_lines offset (offset + available)
                      else content_lines);
             top_padding = (if n_lines > available then 0
                            else max 0 ((available - n_lines) div 2));
             padded = replicate (nat top_padding) (rep space w) @ shown
         in render_slide wide s w h =
              Inr (s \<lparr> scroll_offset := offset \<rparr>,
                   \<lparr> screen_lines =
                       padded @ replicate (nat (available - int (length padded))) (rep space w),
                     notes_panel =
                       (if show_notes s
                        then Some (notes_panel_rows sl w (notes_height s + 4)) else None),
                     status_line =
                       status_bar_line (s \<lparr> scroll_offset := offset \<rparr>) sl w
                         (n_lines > available) n_lines available,
                     frame_needs_scroll = (n_lines > available),
                     frame_total_lines = n_lines,
                     frame_visible_lines = available \<rparr>)"
proof -
  have ix': "py_index (slides (s \<lparr> scroll_offset := x \<rparr>))
               (current_index (s \<lparr> scroll_offset := x \<rparr>)) = Inr sl" for x
    using ix by simp
  show ?thesis
  proof (cases "int (length (prepare_slide_content wide (extract_ascii_art (content sl)) w))
                  > h - 1 - (if show_notes s then notes_height s + 4 else 0)")
    case True
    then show ?thesis
      unfolding render_slide_def render_notes_panel_def render_status_bar_def Let_def
      by (simp only: ix ix' sum.case if_True) (cases "show_notes s"; simp)
  next
    case False
    then show ?thesis
      unfolding render_slide_def render_notes_panel_def render_status_bar_def Let_def
      by (simp only: ix ix' sum.case if_False) (cases "show_notes s"; simp)
  qed
qed

lemma do_scroll_keeps:
  "slides (do_scroll s c) = slides s \<and> current_index (do_scroll s c) = current_index s \<and>
   show_notes (do_scroll s c) = show_notes s \<and> notes_height (do_scroll s c) = notes_height s"
  by (cases c) (simp_all add: scroll_down_def scroll_up_def)

lemma foldl_do_scroll_keeps:
  "slides (foldl do_scroll s cs) = slides s \<and>
   current_index (foldl do_scroll s cs) = current_index s \<and>
   show_notes (foldl do_scroll s cs) = show_notes s \<and>
   notes_height (foldl do_scroll s cs) = notes_height s"
  by (induction cs arbitrary: s) (simp_all add: do_scroll_keeps)

lemma length_prepare_slide_content:
  "length (prepare_slide_content wide t w) = length (str_split [newline] t)"
  by (simp add: prepare_slide_content_def Let_def)

lemma sample_total: "length (str_split [newline] (extract_ascii_art (content sample_slide))) = 5"
  by (simp add: sample_slide_def extract_ascii_art_def str_split_def ustr_def newline_def
      is_fence_def strip_def is_space_def)



text \<open>
  C2: from a state whose current index is in range, after any sequence of
  \<open>scroll_down\<close> and \<open>scroll_up\<close> calls, \<open>_render_slide\<close> returns. The content height of
  the pass is the number of lines prepared from the current slide, its available height
  is \<open>height - 1 - notes_panel_height\<close>, and the scroll offset it leaves is the offset
  reached by the scrolling, clamped: it lies between 0 and
  \<open>max(0, total_content_height - available_height)\<close>.
\<close>

theorem scroll_offset_clamped_after_render:
  assumes "0 \<le> current_index s" and "current_index s < int (length (slides s))"
  shows "let sl = slides s ! nat (current_index s);
             n_lines = int (length (prepare_slide_content wide
                                      (extract_ascii_art (content sl)) width));
             available = height - 1 - (if show_notes s then notes_height s + 4 else 0)
         in \<exists>s' f. render_slide wide (foldl do_scroll s cmds) width height = Inr (s', f) \<and>
              frame_total_lines f = n_lines \<and> frame_visible_lines f = available \<and>
              0 \<le> scroll_offset s' \<and> scroll_offset s' \<le> max 0 (n_lines - available) \<and>
              scroll_offset s' =
                (if n_lines > available
                 then max 0 (min (scroll_offset (foldl do_scroll s cmds)) (n_lines - available))
                 else 0)"
proof -
  let ?t = "foldl do_scroll s cmds"
  have "py_index (slides ?t) (current_index ?t) = Inr (slides s ! nat (current_index s))"
    using assms by (simp add: foldl_do_scroll_keeps py_index_valid)
  note e = render_slide_exact [OF this, of wide width height, unfolded Let_def]
  have k: "show_notes ?t = show_notes s" "notes_height ?t = notes_height s"
    by (simp_all add: foldl_do_scroll_keeps)
  show ?thesis
    unfolding Let_def
    by (intro exI conjI, rule e [unfolded k]) simp_all
qed

text \<open>
  The deck of one slide of five lines, scrolled from 3 down twice and up once to 6, on a
  terminal of 80 by 4: three rows are available and the offset comes back as 2.
\<close>

theorem scroll_offset_clamped_after_render_witness:
  "0 \<le> current_index sample_show \<and>
   current_index sample_show < int (length (slides sample_show)) \<and>
   (\<exists>s' f. render_slide wide_cjk
              (foldl do_scroll sample_show [ScrollDown 3, ScrollDown 3, ScrollUp 3]) 80 4
            = Inr (s', f) \<and>
          frame_total_lines f = 5 \<and> frame_visible_lines f = 3 \<and>
          0 \<le> scroll_offset s' \<and> scroll_offset s' \<le> max 0 (5 - 3) \<and>
          scroll_offset s' = 2)"
proof -
  have sl: "slides sample_show ! nat (current_index sample_show) = sample_slide"
    and h: "0 \<le> current_index sample_show"
      "current_index sample_show < int (length (slides sample_show))"
    and sn: "\<not> show_notes sample_show"
    and so: "scroll_offset (foldl do_scroll sample_show [ScrollDown 3, ScrollDown 3, ScrollUp 3]) = 6"
    by (simp_all add: sample_show_def scroll_down_def scroll_up_def)
  from scroll_offset_clamped_after_render
    [OF h, where wide = wide_cjk and width = 80 and height = 4
       and cmds = "[ScrollDown 3, ScrollDown 3, ScrollUp 3]"]
  show ?thesis
    unfolding Let_def sl length_prepare_slide_content sample_total so
    using h sn by simp
qed






section \<open>Navigation\<close>

text \<open>
  C8 as stated fails: on the last slide \<open>next_slide\<close> changes nothing, so a scroll
  offset of 3 stays 3; the render that follows only clamps it, here to the same 3.
\<close>

theorem next_slide_on_last_keeps_scroll:
  "scroll_offset (next_slide sample_show) = 3 \<and>
   map_sum id (scroll_offset \<circ> fst) (render_slide wide_cjk (next_slide sample_show) 80 3) = Inr 3"
proof -
  have n: "next_slide sample_show = sample_show"
    by (simp add: next_slide_def sample_show_def)
  have "py_index (slides sample_show) (current_index sample_show) = Inr sample_slide"
    by (simp add: sample_show_def py_index_def)
  from render_slide_Inr [OF this, of wide_cjk 80 3] show ?thesis
    unfolding n
    by (auto simp: length_prepare_slide_content sample_total) (simp_all add: sample_show_def)
qed



text \<open>
  C8, amended: \<open>next_slide\<close> sets the current index to \<open>min(current_index + 1, last)\<close>; it
  resets the scroll offset to 0 when the slide changes, and leaves it as it is on the
  last slide.
\<close>

theorem next_slide_effect:
  assumes "current_index s \<le> int (length (slides s)) - 1"
  shows "current_index (next_slide s) = min (current_index s + 1) (int (length (slides s)) - 1) \<and>
         scroll_offset (next_slide s) =
           (if current_index s < int (length (slides s)) - 1 then 0 else scroll_offset s)"
  using assms by (simp add: next_slide_def)

text \<open>The deck of one slide: already on the last slide, the offset stays 3.\<close>

theorem next_slide_effect_witness:
  "current_index sample_show \<le> int (length (slides sample_show)) - 1 \<and>
   current_index (next_slide sample_show) = 0 \<and> scroll_offset (next_slide sample_show) = 3"
  using next_slide_effect [of sample_show]
  by (simp add: sample_show_def)

section \<open>Notes panel\<close>

lemma map_notes_row:
  "map (notes_row width ws) [0 ..< n] =
     map (\<lambda>l. [9474, space] @ l @ rep space (width - 4 - int (length l)) @ [space, 9474])
       (take n ws) @
     replicate (n - length ws) ([9474] @ rep space (width - 2) @ [9474])"
proof (induction n)
  case 0 show ?case by simp
next
  case (Suc n)
  show ?case
  proof (cases "n < length ws")
    case True
    with Suc show ?thesis
      by (simp add: take_Suc_conv_app_nth notes_row_def Let_def)
  next
    case False
    then have "Suc n - length ws = Suc (n - length ws)" by simp
    with False Suc show ?thesis
      by (simp add: notes_row_def replicate_append_same)
  qed
qed

text \<open>
  The height of the panel interior starts at 6 and stays between 2 and 20, so the panel
  height handed to \<open>_render_notes_panel\<close> is at least 6.
\<close>

lemma notes_height_init: "notes_height (init dir loaded) = 6"
  by (simp add: init_def)

lemma notes_height_kept:
  assumes "2 \<le> notes_height s" and "notes_height s \<le> 20"
  shows "2 \<le> notes_height (grow_notes s)" and "notes_height (grow_notes s) \<le> 20"
    and "2 \<le> notes_height (shrink_notes s)" and "notes_height (shrink_notes s) \<le> 20"
    and "notes_height (toggle_notes s) = notes_height s"
  using assms by (simp_all add: grow_notes_def shrink_notes_def toggle_notes_def)

text \<open>
  C10: for a panel of height \<open>notes_h + 4\<close> the rows printed are the top border, the title
  row, the separator, then \<open>notes_h\<close> interior rows and the bottom border. The interior
  holds the first \<open>notes_h\<close> wrapped lines of the notes, framed, the later ones dropped,
  and is filled up with blank framed rows when the notes are shorter: \<open>notes_h + 4\<close>
  rows in all.
\<close>

theorem notes_panel_fixed_height:
  assumes "py_index (slides s) (current_index s) = Inr sl" and "0 \<le> notes_h"
  shows "let wrapped = wrap_notes (if slide_notes sl \<noteq> [] then strip (slide_notes sl)
                                    else ustr ''(No speaker notes)'') (width - 4)
         in \<exists>top_border title_line separator bottom_border.
              render_notes_panel s width (notes_h + 4) =
                Inr ([top_border, title_line, separator] @
                     map (\<lambda>l. [9474, space] @ l @ rep space (width - 4 - int (length l)) @
                               [space, 9474])
                       (take (nat notes_h) wrapped) @
                     replicate (nat notes_h - length wrapped)
                       ([9474] @ rep space (width - 2) @ [9474]) @
                     [bottom_border]) \<and>
              int (length ([top_border, title_line, separator] @
                     map (\<lambda>l. [9474, space] @ l @ rep space (width - 4 - int (length l)) @
                               [space, 9474])
                       (take (nat notes_h) wrapped) @
                     replicate (nat notes_h - length wrapped)
                       ([9474] @ rep space (width - 2) @ [9474]) @
                     [bottom_border])) = notes_h + 4"
  using assms
  by (auto simp: render_notes_panel_def notes_panel_rows_def Let_def map_notes_row)

text \<open>The sample notes wrap to three lines at width 12; a panel of interior height 2.\<close>

theorem notes_panel_fixed_height_witness:
  "py_index (slides sample_show) (current_index sample_show) = Inr sample_slide \<and>
   (0::int) \<le> 2 \<and>
   (let wrapped = wrap_notes (if slide_notes sample_slide \<noteq> [] then strip (slide_notes sample_slide)
                                    else ustr ''(No speaker notes)'') (12 - 4)
         in \<exists>top_border title_line separator bottom_border.
              render_notes_panel sample_show 12 (2 + 4) =
                Inr ([top_border, title_line, separator] @
                     map (\<lambda>l. [9474, space] @ l @ rep space (12 - 4 - int (length l)) @
                               [space, 9474])
                       (take (nat 2) wrapped) @
                     replicate (nat 2 - length wrapped)
                       ([9474] @ rep space (12 - 2) @ [9474]) @
                     [bottom_border]) \<and>
              int (length ([top_border, title_line, separator] @
                     map (\<lambda>l. [9474, space] @ l @ rep space (12 - 4 - int (length l)) @
                               [space, 9474])
                       (take (nat 2) wrapped) @
                     replicate (nat 2 - length wrapped)
                       ([9474] @ rep space (12 - 2) @ [9474]) @
                     [bottom_border])) = 2 + 4)"
proof -
  have ix: "py_index (slides sample_show) (current_index sample_show) = Inr sample_slide"
    by (simp add: sample_show_def py_index_def)
  have nh: "(0::int) \<le> 2" by simp
  from notes_panel_fixed_height [OF ix nh, of 12] ix nh show ?thesis by blast
qed

section \<open>Word wrap\<close>

lemma join_snoc: "xs \<noteq> [] \<Longrightarrow> join sep (xs @ [y]) = join sep xs @ sep @ y"
  by (induction sep xs rule: join.induct) simp_all

lemma join_append:
  "xs \<noteq> [] \<Longrightarrow> ys \<noteq> [] \<Longrightarrow> join sep (xs @ ys) = join sep xs @ sep @ join sep ys"
proof (induction sep xs rule: join.induct)
  case (1 sep) then show ?case by simp
next
  case (2 sep x)
  then show ?case by (cases ys) simp_all
next
  case (3 sep x y ys')
  then show ?case by simp
qed

lemma join_flush_flush:
  "ws \<noteq> [] \<Longrightarrow>
   join [space] (flush_line (flush_line ls cur) ws) = join [space] (flush_line ls (cur @ ws))"
  by (cases "cur = []"; cases "ls = []") (simp_all add: flush_line_def join_snoc join_append)

lemma wrap_loop_join:
  "join [space] (flush_line (fst (wrap_loop width ls cur len ws))
                            (snd (wrap_loop width ls cur len ws)))
   = join [space] (flush_line ls (cur @ ws))"
proof (induction ws arbitrary: ls cur len)
  case Nil show ?case by simp
next
  case (Cons w ws)
  show ?case
  proof (cases "len + int (length w) + (if cur \<noteq> [] then 1 else 0) \<le> width")
    case True
    then have "wrap_loop width ls cur len (w # ws) =
                 wrap_loop width ls (cur @ [w])
                   (len + int (length w) + (if length (cur @ [w]) > 1 then 1 else 0)) ws"
      by (simp add: Let_def)
    then show ?thesis
      using Cons.IH [of ls "cur @ [w]"] by simp
  next
    case False
    then have "wrap_loop width ls cur len (w # ws) =
                 wrap_loop width (flush_line ls cur) [w] (int (length w)) ws"
      by (simp add: Let_def)
    then show ?thesis
      using Cons.IH [of "flush_line ls cur" "[w]"] join_flush_flush [of "w # ws" ls cur]
      by simp
  qed
qed

lemma split_ws_loop_concat:
  "concat (split_ws_loop cur s) = cur @ filter (\<lambda>c. \<not> is_space c) s"
  by (induction s arbitrary: cur) simp_all

lemma split_ws_loop_nonempty: "[] \<notin> set (split_ws_loop cur s)"
  by (induction s arbitrary: cur) simp_all

text \<open>
  C9: the lines of \<open>_wrap_text\<close>, joined by single spaces, are the whitespace-separated
  words of the text joined by single spaces, for every text and width. The words are
  non-empty and hold exactly the characters of the text that are not whitespace, in
  order: every run of whitespace has become one space or, at either end, nothing.
\<close>

theorem wrap_text_join:
  "join [space] (wrap_text t width) = join [space] (split_ws t) \<and>
   concat (split_ws t) = filter (\<lambda>c. \<not> is_space c) t \<and>
   [] \<notin> set (split_ws t)"
proof -
  define gathered where
    "gathered = flush_line (fst (wrap_loop width [] [] 0 (split_ws t)))
                           (snd (wrap_loop width [] [] 0 (split_ws t)))"
  have "wrap_text t width = (if gathered \<noteq> [] then gathered else [[]])"
    by (simp add: wrap_text_def Let_def split_beta gathered_def)
  then have "join [space] (wrap_text t width) = join [space] gathered"
    by simp
  also have "\<dots> = join [space] (flush_line [] (split_ws t))"
    unfolding gathered_def using wrap_loop_join [of width "[]" "[]" 0 "split_ws t"] by simp
  also have "\<dots> = join [space] (split_ws t)"
    by (simp add: flush_line_def)
  finally show ?thesis
    by (simp add: split_ws_def split_ws_loop_concat split_ws_loop_nonempty)
qed

section \<open>Loading slides\<close>

lemma absent_iff: "absent sep s \<longleftrightarrow> (\<forall>i<length s. \<not> prefix sep (drop i s))"
  by (auto simp: absent_def list_all_iff)

lemma first_at_iff:
  "first_at sep s n \<longleftrightarrow> prefix sep (drop n s) \<and> (\<forall>i<n. \<not> prefix sep (drop i s))"
  by (auto simp: first_at_def list_all_iff)

lemma split_loop_absent:
  "absent sep s \<Longrightarrow> split_loop sep cur s = [cur @ s]"
proof (induction s arbitrary: cur)
  case Nil show ?case by simp
next
  case (Cons c s)
  from Cons.prems have h: "\<not> prefix sep (c # s)" and t: "absent sep s"
    by (force simp: absent_iff)+
  with Cons.IH [OF t, of "cur @ [c]"] show ?case by simp
qed

lemma split_loop_first:
  "sep \<noteq> [] \<Longrightarrow> first_at sep s n \<Longrightarrow>
   split_loop sep cur s = (cur @ take n s) # split_loop sep [] (drop (n + length sep) s)"
proof (induction s arbitrary: cur n)
  case Nil
  then show ?case by (simp add: first_at_iff)
next
  case (Cons c s)
  show ?case
  proof (cases n)
    case 0
    with Cons.prems show ?thesis by (simp add: first_at_iff)
  next
    case (Suc m)
    from Cons.prems Suc have h: "\<not> prefix sep (c # s)" and t: "first_at sep s m"
      by (force simp: first_at_iff)+
    with Cons.IH [OF Cons.prems(1) t, of "cur @ [c]"] Suc show ?thesis by simp
  qed
qed

lemma marker_nonempty: "speaker_notes_marker \<noteq> []"
  by (simp add: speaker_notes_marker_def ustr_def)

lemma split_loop_nonempty: "split_loop sep cur s \<noteq> []"
  by (induction s arbitrary: cur) simp_all

lemma split_loop_head_char:
  "\<exists>rest. split_loop [c] cur s = (cur @ takeWhile (\<lambda>x. x \<noteq> c) s) # rest"
proof (induction s arbitrary: cur)
  case Nil show ?case by simp
next
  case (Cons a s)
  show ?case
    using Cons.IH [of "cur @ [a]"] by (cases "a = c") auto
qed

lemma parse_slide_Inr: "\<exists>sl. parse_slide path t = Inr sl"
  using split_loop_nonempty [of speaker_notes_marker "[]" t]
  by (cases "split_loop speaker_notes_marker [] t") (simp_all add: parse_slide_def str_split_def Let_def)

lemma parse_slide_parts:
  "str_split speaker_notes_marker t = p0 # rest \<Longrightarrow>
   \<exists>sl. parse_slide path t = Inr sl \<and> content sl = strip p0 \<and>
        slide_notes sl = (case rest of p1 # _ \<Rightarrow> strip p1 | [] \<Rightarrow> [])"
  by (simp add: parse_slide_def Let_def)

text \<open>
  C4 as stated fails: when the marker occurs twice, the notes are the text between the
  two occurrences, not everything after the first.
\<close>

theorem parse_slide_second_marker:
  "map_sum id slide_notes
     (parse_slide [] (ustr ''A## Speaker NotesB## Speaker NotesC'')) = Inr (ustr ''B'') \<and>
   ustr ''B'' \<noteq> strip (ustr ''B## Speaker NotesC'')"
  by (simp add: parse_slide_def str_split_def speaker_notes_marker_def ustr_def strip_def
      is_space_def Let_def)

text \<open>
  C4, amended: the text before the first occurrence of the marker is the body, trimmed;
  the notes are the text between the first occurrence and the next one, or the end of
  the file when there is no other, trimmed; without any occurrence the body is the
  whole text, trimmed, and the notes are empty.
\<close>

theorem parse_slide_body_and_notes:
  "(absent speaker_notes_marker t \<longrightarrow>
      (\<exists>sl. parse_slide path t = Inr sl \<and> content sl = strip t \<and> slide_notes sl = [])) \<and>
   (first_at speaker_notes_marker t n \<and>
    absent speaker_notes_marker (drop (n + length speaker_notes_marker) t) \<longrightarrow>
      (\<exists>sl. parse_slide path t = Inr sl \<and> content sl = strip (take n t) \<and>
            slide_notes sl = strip (drop (n + length speaker_notes_marker) t))) \<and>
   (first_at speaker_notes_marker t n \<and>
    first_at speaker_notes_marker (drop (n + length speaker_notes_marker) t) k \<longrightarrow>
      (\<exists>sl. parse_slide path t = Inr sl \<and> content sl = strip (take n t) \<and>
            slide_notes sl = strip (take k (drop (n + length speaker_notes_marker) t))))"
proof (intro conjI impI)
  assume "absent speaker_notes_marker t"
  then have "str_split speaker_notes_marker t = [t]"
    by (simp add: str_split_def split_loop_absent)
  from parse_slide_parts [OF this]
  show "\<exists>sl. parse_slide path t = Inr sl \<and> content sl = strip t \<and> slide_notes sl = []"
    by simp
next
  let ?r = "drop (n + length speaker_notes_marker) t"
  assume a: "first_at speaker_notes_marker t n \<and> absent speaker_notes_marker ?r"
  then have "split_loop speaker_notes_marker [] t =
               ([] @ take n t) # split_loop speaker_notes_marker [] ?r"
    by (intro split_loop_first marker_nonempty) simp
  moreover have "split_loop speaker_notes_marker [] ?r = [[] @ ?r]"
    using a by (intro split_loop_absent) simp
  ultimately have "str_split speaker_notes_marker t = take n t # [?r]"
    by (simp add: str_split_def)
  from parse_slide_parts [OF this]
  show "\<exists>sl. parse_slide path t = Inr sl \<and> content sl = strip (take n t) \<and>
             slide_notes sl = strip ?r"
    by simp
next
  let ?r = "drop (n + length speaker_notes_marker) t"
  assume a: "first_at speaker_notes_marker t n \<and> first_at speaker_notes_marker ?r k"
  then have "split_loop speaker_notes_marker [] t =
               ([] @ take n t) # split_loop speaker_notes_marker [] ?r"
    by (intro split_loop_first marker_nonempty) simp
  moreover have "split_loop speaker_notes_marker [] ?r =
               ([] @ take k ?r) #
                 split_loop speaker_notes_marker [] (drop (k + length speaker_notes_marker) ?r)"
    using a by (intro split_loop_first marker_nonempty) simp
  ultimately have "str_split speaker_notes_marker t =
               take n t # take k ?r #
                 split_loop speaker_notes_marker [] (drop (k + length speaker_notes_marker) ?r)"
    by (simp add: str_split_def)
  from parse_slide_parts [OF this]
  show "\<exists>sl. parse_slide path t = Inr sl \<and> content sl = strip (take n t) \<and>
             slide_notes sl = strip (take k ?r)"
    by simp
qed

text \<open>A file without the marker, one with the marker once, and one with the marker twice.\<close>

theorem parse_slide_body_and_notes_witness:
  "(absent speaker_notes_marker (ustr ''# T\<newline>body'') \<and>
    (\<exists>sl. parse_slide [] (ustr ''# T\<newline>body'') = Inr sl \<and>
          content sl = strip (ustr ''# T\<newline>body'') \<and> slide_notes sl = [])) \<and>
   (first_at speaker_notes_marker (ustr ''# T\<newline>## Speaker Notes\<newline>say hi'') 4 \<and>
    absent speaker_notes_marker
      (drop (4 + length speaker_notes_marker) (ustr ''# T\<newline>## Speaker Notes\<newline>say hi'')) \<and>
    (\<exists>sl. parse_slide [] (ustr ''# T\<newline>## Speaker Notes\<newline>say hi'') = Inr sl \<and>
          content sl = strip (take 4 (ustr ''# T\<newline>## Speaker Notes\<newline>say hi'')) \<and>
          slide_notes sl =
            strip (drop (4 + length speaker_notes_marker)
                     (ustr ''# T\<newline>## Speaker Notes\<newline>say hi'')))) \<and>
   (first_at speaker_notes_marker (ustr ''A## Speaker NotesB## Speaker NotesC'') 1 \<and>
    first_at speaker_notes_marker
      (drop (1 + length speaker_notes_marker) (ustr ''A## Speaker NotesB## Speaker NotesC'')) 1 \<and>
    (\<exists>sl. parse_slide [] (ustr ''A## Speaker NotesB## Speaker NotesC'') = Inr sl \<and>
          content sl = strip (take 1 (ustr ''A## Speaker NotesB## Speaker NotesC'')) \<and>
          slide_notes sl =
            strip (take 1 (drop (1 + length speaker_notes_marker)
                             (ustr ''A## Speaker NotesB## Speaker NotesC'')))))"
proof -
  have h1: "absent speaker_notes_marker (ustr ''# T\<newline>body'')"
    by code_simp
  have h2: "first_at speaker_notes_marker (ustr ''# T\<newline>## Speaker Notes\<newline>say hi'') 4"
    by code_simp
  have h3: "absent speaker_notes_marker
      (drop (4 + length speaker_notes_marker) (ustr ''# T\<newline>## Speaker Notes\<newline>say hi''))"
    by code_simp
  have h4: "first_at speaker_notes_marker (ustr ''A## Speaker NotesB## Speaker NotesC'') 1"
    by code_simp
  have h5: "first_at speaker_notes_marker
      (drop (1 + length speaker_notes_marker) (ustr ''A## Speaker NotesB## Speaker NotesC'')) 1"
    by code_simp
  show ?thesis
    using h1 h2 h3 h4 h5
      parse_slide_body_and_notes
        [where t = "ustr ''# T\<newline>body''" and path = "[]"]
      parse_slide_body_and_notes
        [where t = "ustr ''# T\<newline>## Speaker Notes\<newline>say hi''" and path = "[]" and n = 4]
      parse_slide_body_and_notes
        [where t = "ustr ''A## Speaker NotesB## Speaker NotesC''" and path = "[]"
           and n = 1 and k = 1]
    by blast
qed

text \<open>
  C5 as stated fails: every occurrence of \<open># \<close> in the first line is removed, not a
  leading one alone; and the title of a file with an empty body is the empty string.
\<close>

theorem parse_slide_title_inner_hash:
  "map_sum id title (parse_slide [] (ustr ''# C# is fun'')) = Inr (ustr ''Cis fun'') \<and>
   ustr ''Cis fun'' \<noteq> ustr ''C# is fun'' \<and>
   map_sum id title (parse_slide [] []) = Inr []"
  by (simp add: parse_slide_def str_split_def speaker_notes_marker_def ustr_def strip_def
      is_space_def Let_def newline_def str_replace_def)

text \<open>
  C5, amended: loading never fails, and the title of a slide with a non-empty body is
  the first line of the body with every occurrence of \<open># \<close> removed.
\<close>

theorem parse_slide_title:
  "\<exists>sl. parse_slide path t = Inr sl \<and>
     (content sl \<noteq> [] \<longrightarrow>
        title sl = str_replace (ustr ''# '') [] (takeWhile (\<lambda>c. c \<noteq> newline) (content sl)))"
proof -
  obtain p0 rest where p: "str_split speaker_notes_marker t = p0 # rest"
    using split_loop_nonempty [of speaker_notes_marker "[]" t]
    by (cases "split_loop speaker_notes_marker [] t") (simp_all add: str_split_def)
  obtain more where l: "str_split [newline] (strip p0) =
      takeWhile (\<lambda>c. c \<noteq> newline) (strip p0) # more"
    using split_loop_head_char [of newline "[]" "strip p0"] by (auto simp: str_split_def)
  show ?thesis
    using p l by (simp add: parse_slide_def Let_def)
qed

text \<open>A file whose first line holds \<open># \<close> twice.\<close>

theorem parse_slide_title_witness:
  "\<exists>sl. parse_slide [] (ustr ''# C# is fun\<newline>body'') = Inr sl \<and> content sl \<noteq> [] \<and>
     title sl = str_replace (ustr ''# '') [] (takeWhile (\<lambda>c. c \<noteq> newline) (content sl))"
proof -
  obtain sl where sl: "parse_slide [] (ustr ''# C# is fun\<newline>body'') = Inr sl"
    and t: "content sl \<noteq> [] \<longrightarrow>
        title sl = str_replace (ustr ''# '') [] (takeWhile (\<lambda>c. c \<noteq> newline) (content sl))"
    using parse_slide_title [of "[]" "ustr ''# C# is fun\<newline>body''"] by blast
  have "map_sum id content (parse_slide [] (ustr ''# C# is fun\<newline>body''))
          = Inr (ustr ''# C# is fun\<newline>body'')"
    by (simp add: parse_slide_def str_split_def speaker_notes_marker_def ustr_def strip_def
        is_space_def Let_def)
  with sl have "content sl \<noteq> []"
    by (simp add: ustr_def)
  with sl t show ?thesis by blast
qed

end
